theory Spec2Isabelle
  imports Main
begin

text \<open>
  A model of \<open>TaskScanner\<close> (\<open>src/core/tasks.py\<close>): the extractor
  \<open>_extract_tasks_from_text\<close> with the four regular expressions it applies, the URL
  test \<open>_is_url\<close>, and \<open>scan\<close> with \<open>_scan_filesystem\<close>, \<open>_analyze_file\<close> and
  \<open>_scan_webpage\<close>. The file system, the HTTP client and the HTML parser are
  parameters of the model; the behaviour of \<open>re\<close>, \<open>str\<close>, \<open>pathlib\<close> and
  \<open>urllib.parse\<close> that the code relies on is written out.
\<close>

section \<open>Python strings\<close>

text \<open>
  A Python \<open>str\<close> is a sequence of Unicode code points. A code point is a natural
  number here, so that \<open>length\<close> counts what Python's \<open>len\<close> counts and every
  statement about "every text" ranges over all of Python's strings. \<open>ustr\<close> reads an
  ASCII literal of the source.
\<close>

type_synonym codepoint = nat

type_synonym pystr = "codepoint list"

definition ustr :: "string \<Rightarrow> pystr" where
  "ustr s = map of_char s"

text \<open>
  \<open>isspace\<close> is the whitespace test shared by \<open>str.strip()\<close> and by the class
  \<open>\s\<close> of a \<open>str\<close> pattern: TAB to CR, FS to US, SPACE, NEL, NBSP and the Unicode
  space separators.
\<close>

definition isspace :: "codepoint \<Rightarrow> bool" where
  "isspace c =
     ((9 \<le> c \<and> c \<le> 13) \<or> (28 \<le> c \<and> c \<le> 32) \<or> c = 133 \<or> c = 160 \<or> c = 5760 \<or>
      (8192 \<le> c \<and> c \<le> 8202) \<or> c = 8232 \<or> c = 8233 \<or> c = 8239 \<or> c = 8287 \<or>
      c = 12288)"

text \<open>\<open>s.strip()\<close>: leading and trailing whitespace removed.\<close>

definition strip :: "pystr \<Rightarrow> pystr" where
  "strip s = rev (dropWhile isspace (rev (dropWhile isspace s)))"

text \<open>\<open>sub in s\<close> for strings: \<open>sub\<close> occurs in \<open>s\<close> as a contiguous substring.\<close>

fun startswith :: "pystr \<Rightarrow> pystr \<Rightarrow> bool" where
  "startswith s [] = True"
| "startswith [] (c # sub) = False"
| "startswith (d # s) (c # sub) = (d = c \<and> startswith s sub)"

fun contains :: "pystr \<Rightarrow> pystr \<Rightarrow> bool" where
  "contains [] sub = startswith [] sub"
| "contains (d # s) sub = (startswith (d # s) sub \<or> contains s sub)"

section \<open>The regular expressions of \<open>re\<close> that the scanner uses\<close>

text \<open>
  All four patterns carry the flag \<open>(?i)\<close>. Under it a letter of the pattern matches
  its lower and upper case forms and the code points whose lower case is that letter
  or its registered equivalent: U+0130 and U+0131 for \<open>i\<close>, U+017F for \<open>s\<close>, U+212A for
  \<open>k\<close>. A character that is not a letter matches itself only.
\<close>

definition ci_variants :: "codepoint \<Rightarrow> codepoint list" where
  "ci_variants l =
     (if 97 \<le> l \<and> l \<le> 122 then
        [l, l - 32] @
        (if l = 105 then [304, 305] else if l = 115 then [383]
         else if l = 107 then [8490] else [])
      else if 65 \<le> l \<and> l \<le> 90 then
        [l + 32, l] @
        (if l = 73 then [304, 305] else if l = 83 then [383]
         else if l = 75 then [8490] else [])
      else [l])"

definition ci_match :: "codepoint \<Rightarrow> codepoint \<Rightarrow> bool" where
  "ci_match l c = (c \<in> set (ci_variants l))"

text \<open>
  A character set \<open>[...]\<close> or \<open>[^...]\<close> lists literals and the category \<open>\s\<close>;
  \<open>\s\<close> on its own is the set \<open>In [CSpace]\<close>.
\<close>

datatype citem = CLit codepoint | CSpace

fun item_match :: "citem \<Rightarrow> codepoint \<Rightarrow> bool" where
  "item_match (CLit l) c = ci_match l c"
| "item_match CSpace c = isspace c"

datatype cset = In "citem list" | NotIn "citem list"

fun in_cset :: "cset \<Rightarrow> codepoint \<Rightarrow> bool" where
  "in_cset (In items) c = list_ex (\<lambda>i. item_match i c) items"
| "in_cset (NotIn items) c = (\<not> list_ex (\<lambda>i. item_match i c) items)"

text \<open>
  The fragment of the pattern language that occurs in the source: literal text,
  greedy \<open>*\<close> and \<open>+\<close> over a character set, greedy \<open>?\<close>, alternation, sequence and the
  capturing group (each pattern has exactly one, group 1).
\<close>

datatype regex =
    Lit pystr
  | Star cset
  | Plus cset
  | Opt regex
  | Alt "regex list"
  | Seq "regex list"
  | Group regex

text \<open>
  The state of a match attempt is the text still to be read and the text captured by
  group 1, if the group has been passed.
\<close>

type_synonym mstate = "pystr \<times> pystr option"

fun lit_prefix :: "pystr \<Rightarrow> pystr \<Rightarrow> pystr option" where
  "lit_prefix [] s = Some s"
| "lit_prefix (l # w) [] = None"
| "lit_prefix (l # w) (c # s) = (if ci_match l c then lit_prefix w s else None)"

text \<open>
  \<open>run r st\<close> lists every way of matching \<open>r\<close> from state \<open>st\<close>, in the order in
  which the backtracking matcher tries them: a greedy repetition offers its longest
  run first and then gives characters back one at a time, \<open>r?\<close> tries \<open>r\<close> before the
  empty match, an alternation tries its branches from left to right, and a sequence
  exhausts the continuations of one choice before it moves to the next choice. The
  match the engine reports is the head of the list.
\<close>

fun run :: "regex \<Rightarrow> mstate \<Rightarrow> mstate list" where
  "run (Lit w) (s, g) = (case lit_prefix w s of None \<Rightarrow> [] | Some r \<Rightarrow> [(r, g)])"
| "run (Star cs) (s, g) =
     map (\<lambda>k. (drop k s, g)) (rev [0 ..< Suc (length (takeWhile (in_cset cs) s))])"
| "run (Plus cs) (s, g) =
     map (\<lambda>k. (drop k s, g)) (rev [1 ..< Suc (length (takeWhile (in_cset cs) s))])"
| "run (Opt r) st = run r st @ [st]"
| "run (Alt rs) st = concat (map (\<lambda>r. run r st) rs)"
| "run (Seq rs) st = foldl (\<lambda>sts r. concat (map (run r) sts)) [st] rs"
| "run (Group r) (s, g) =
     map (\<lambda>(s', _). (s', Some (take (length s - length s') s))) (run r (s, g))"

text \<open>The text of group 1 as \<open>findall\<close> reports it: empty when the group took no part.\<close>

definition group1 :: "pystr option \<Rightarrow> pystr" where
  "group1 g = (case g of None \<Rightarrow> [] | Some m \<Rightarrow> m)"

text \<open>
  \<open>re.search(p, s)\<close>: the first position, from the left, at which \<open>p\<close> matches; the
  result is the state after the match.
\<close>

fun search :: "regex \<Rightarrow> pystr \<Rightarrow> mstate option" where
  "search p [] = (case run p ([], None) of [] \<Rightarrow> None | m # _ \<Rightarrow> Some m)"
| "search p (c # s) = (case run p (c # s, None) of [] \<Rightarrow> search p s | m # _ \<Rightarrow> Some m)"

text \<open>
  \<open>re.findall(p, s)\<close> for a pattern with one group: the text of group 1 of every
  match, scanning from the left; the scan resumes where a match ended, and one
  character further on when nothing matched or the match was empty.
\<close>

function findall :: "regex \<Rightarrow> pystr \<Rightarrow> pystr list" where
  "findall p s =
     (case run p (s, None) of
        [] \<Rightarrow> (case s of [] \<Rightarrow> [] | _ # r \<Rightarrow> findall p r)
      | (s', g) # _ \<Rightarrow>
          group1 g # (if length s' < length s then findall p s'
                      else (case s of [] \<Rightarrow> [] | _ # r \<Rightarrow> findall p r)))"
  by pat_completeness auto
termination
  by (relation "measure (\<lambda>(p, s). length s)") auto

declare findall.simps [simp del]

section \<open>\<open>TaskScanner._extract_tasks_from_text\<close>\<close>

definition ws :: cset where
  "ws = In [CSpace]"

definition colon_ws :: cset where
  "colon_ws = In [CLit 58, CSpace]"

definition not_dot_nl :: cset where
  "not_dot_nl = NotIn [CLit 46, CLit 10]"

text \<open>
  The list \<open>patterns\<close> of the source, in its order:
  \<^verbatim>\<open>(?i)manual(?:ly)?\s+(?:process|task|step|procedure)[:\s]*([^.\n]+)\<close>,
  \<^verbatim>\<open>(?i)currently\s+(?:done|performed)\s+manual(?:ly)?[:\s]*([^.\n]+)\<close>,
  \<^verbatim>\<open>(?i)human\s+(?:intervention|input|action)[:\s]*([^.\n]+)\<close>,
  \<^verbatim>\<open>(?i)repetitive\s+task[:\s]*([^.\n]+)\<close>.
\<close>

definition patterns :: "regex list" where
  "patterns =
     [Seq [Lit (ustr ''manual''), Opt (Lit (ustr ''ly'')), Plus ws,
           Alt [Lit (ustr ''process''), Lit (ustr ''task''), Lit (ustr ''step''),
                Lit (ustr ''procedure'')],
           Star colon_ws, Group (Plus not_dot_nl)],
      Seq [Lit (ustr ''currently''), Plus ws,
           Alt [Lit (ustr ''done''), Lit (ustr ''performed'')],
           Plus ws, Lit (ustr ''manual''), Opt (Lit (ustr ''ly'')),
           Star colon_ws, Group (Plus not_dot_nl)],
      Seq [Lit (ustr ''human''), Plus ws,
           Alt [Lit (ustr ''intervention''), Lit (ustr ''input''), Lit (ustr ''action'')],
           Star colon_ws, Group (Plus not_dot_nl)],
      Seq [Lit (ustr ''repetitive''), Plus ws, Lit (ustr ''task''),
           Star colon_ws, Group (Plus not_dot_nl)]]"

text \<open>
  The loop over \<open>patterns\<close>: \<open>tasks\<close> is extended, pattern by pattern, with the
  stripped matches that are not empty.
\<close>

definition collect_tasks :: "pystr \<Rightarrow> pystr list" where
  "collect_tasks text =
     foldl (\<lambda>tasks pattern.
              tasks @ [strip m. m \<leftarrow> findall pattern text, strip m \<noteq> []])
       [] patterns"

text \<open>
  \<open>list(set(tasks))\<close> keeps one copy of every element. The order in which a set is
  iterated follows the hashes of its elements, and the hash of a string changes with
  the hash seed of the process; \<open>h\<close> stands for that hash, the only state outside the
  text that the result can depend on.
\<close>

definition list_of_set :: "(pystr \<Rightarrow> nat) \<Rightarrow> pystr list \<Rightarrow> pystr list" where
  "list_of_set h xs = sort_key h (remdups xs)"

definition extract_tasks_from_text :: "(pystr \<Rightarrow> nat) \<Rightarrow> pystr \<Rightarrow> pystr list" where
  "extract_tasks_from_text h text = list_of_set h (collect_tasks text)"

section \<open>Exceptions and effects\<close>

text \<open>
  A raised exception, with its message \<open>str(e)\<close>. \<open>Exc\<close> stands for the classes
  derived from \<open>Exception\<close>, which \<open>except Exception\<close> catches; \<open>BaseExc\<close> for the
  others (\<open>KeyboardInterrupt\<close>, \<open>SystemExit\<close>), which only a bare \<open>except:\<close>
  catches.
\<close>

datatype exc = Exc pystr | BaseExc pystr

text \<open>
  What a call does besides returning: the files it hands to \<open>read_text\<close>, the URLs
  it requests, the lines it prints. A call returns its events and either the
  exception that leaves it or its value.
\<close>

datatype event = ReadText pystr | HttpGet pystr | Printed pystr

type_synonym 'a outcome = "event list \<times> (exc + 'a)"

section \<open>\<open>urllib.parse.urlparse\<close> and \<open>TaskScanner._is_url\<close>\<close>

text \<open>
  Of the parse result the scanner reads \<open>scheme\<close> and \<open>netloc\<close> only; \<open>rest\<close> is the
  remainder of the URL, which \<open>urlparse\<close> goes on to split into path, parameters,
  query and fragment.
\<close>

record parse_result =
  scheme :: pystr
  netloc :: pystr
  rest :: pystr

definition c0_control_or_space :: "codepoint \<Rightarrow> bool" where
  "c0_control_or_space c = (c \<le> 32)"

definition unsafe_url_byte :: "codepoint \<Rightarrow> bool" where
  "unsafe_url_byte c = (c = 9 \<or> c = 13 \<or> c = 10)"

definition ascii_alpha :: "codepoint \<Rightarrow> bool" where
  "ascii_alpha c = ((65 \<le> c \<and> c \<le> 90) \<or> (97 \<le> c \<and> c \<le> 122))"

definition scheme_char :: "codepoint \<Rightarrow> bool" where
  "scheme_char c = (ascii_alpha c \<or> (48 \<le> c \<and> c \<le> 57) \<or> c = 43 \<or> c = 45 \<or> c = 46)"

definition ascii_lower :: "codepoint \<Rightarrow> codepoint" where
  "ascii_lower c = (if 65 \<le> c \<and> c \<le> 90 then c + 32 else c)"

text \<open>\<open>s.find(c)\<close> and \<open>s.rfind(c)\<close>, with \<open>None\<close> for Python's \<open>-1\<close>.\<close>

fun find_char :: "codepoint \<Rightarrow> pystr \<Rightarrow> nat option" where
  "find_char c [] = None"
| "find_char c (x # s) = (if x = c then Some 0 else map_option Suc (find_char c s))"

fun rfind_char :: "codepoint \<Rightarrow> pystr \<Rightarrow> nat option" where
  "rfind_char c [] = None"
| "rfind_char c (x # s) =
     (case rfind_char c s of
        Some i \<Rightarrow> Some (Suc i)
      | None \<Rightarrow> if x = c then Some 0 else None)"

text \<open>
  The scheme is the text before the first colon, in lower case, when that text
  starts with an ASCII letter and consists of letters, digits, \<open>+\<close>, \<open>-\<close> and \<open>.\<close>.
\<close>

definition split_scheme :: "pystr \<Rightarrow> pystr \<times> pystr" where
  "split_scheme url =
     (case find_char 58 url of
        None \<Rightarrow> ([], url)
      | Some i \<Rightarrow>
          if 0 < i \<and> list_all ascii_alpha (take 1 url) \<and> list_all scheme_char (take i url)
          then (map ascii_lower (take i url), drop (Suc i) url)
          else ([], url))"

text \<open>
  \<open>_splitnetloc(url, 2)\<close>: after the leading \<open>//\<close> the netloc runs to the first of
  \<open>/\<close>, \<open>?\<close> and \<open>#\<close>, or to the end.
\<close>

definition netloc_delim :: "codepoint \<Rightarrow> bool" where
  "netloc_delim c = (c = 47 \<or> c = 63 \<or> c = 35)"

definition splitnetloc :: "pystr \<Rightarrow> pystr \<times> pystr" where
  "splitnetloc url =
     (takeWhile (\<lambda>c. \<not> netloc_delim c) (drop 2 url),
      dropWhile (\<lambda>c. \<not> netloc_delim c) (drop 2 url))"

text \<open>
  \<open>urlparse\<close> strips leading control characters and spaces, deletes tab, carriage
  return and line feed, splits off the scheme and, after \<open>//\<close>, the netloc. It raises
  \<open>ValueError\<close> for a netloc with one square bracket and not the other. A netloc with
  both brackets or with a character outside ASCII goes through further checks of the
  library (the address between the brackets, the normal form of the netloc); they
  are the parameter \<open>check\<close>, which answers \<open>None\<close> or the message of the
  \<open>ValueError\<close>.
\<close>

definition urlparse :: "(pystr \<Rightarrow> pystr option) \<Rightarrow> pystr \<Rightarrow> exc + parse_result" where
  "urlparse check string =
     (let url = filter (\<lambda>c. \<not> unsafe_url_byte c) (dropWhile c0_control_or_space string);
          (sch, url) = split_scheme url
      in if take 2 url = [47, 47] then
           (let (loc, url) = splitnetloc url
            in if (91 \<in> set loc) \<noteq> (93 \<in> set loc) then Inl (Exc (ustr ''Invalid IPv6 URL''))
               else if 91 \<in> set loc \<or> list_ex (\<lambda>c. 128 \<le> c) loc then
                 (case check loc of
                    Some msg \<Rightarrow> Inl (Exc msg)
                  | None \<Rightarrow> Inr \<lparr>scheme = sch, netloc = loc, rest = url\<rparr>)
               else Inr \<lparr>scheme = sch, netloc = loc, rest = url\<rparr>)
         else Inr \<lparr>scheme = sch, netloc = [], rest = url\<rparr>)"

text \<open>
  \<open>_is_url\<close>: \<open>all([result.scheme, result.netloc])\<close>, both strings not empty; the
  bare \<open>except:\<close> turns every exception of the parse into \<open>False\<close>.
\<close>

definition is_url :: "(pystr \<Rightarrow> pystr option) \<Rightarrow> pystr \<Rightarrow> bool" where
  "is_url check string =
     (case urlparse check string of
        Inl e \<Rightarrow> False
      | Inr result \<Rightarrow> scheme result \<noteq> [] \<and> netloc result \<noteq> [])"

text \<open>
  The host name inside a netloc, as \<open>_hostinfo\<close> finds it: the text after the last
  \<open>@\<close>, and of that the part between square brackets when there is an opening
  bracket, the part before the first colon otherwise. \<open>result.hostname\<close> is \<open>None\<close>
  exactly when this text is empty.
\<close>

definition hostinfo_hostname :: "pystr \<Rightarrow> pystr" where
  "hostinfo_hostname loc =
     (let hostinfo = rev (takeWhile (\<lambda>c. c \<noteq> 64) (rev loc))
      in if 91 \<in> set hostinfo
         then takeWhile (\<lambda>c. c \<noteq> 93) (drop 1 (dropWhile (\<lambda>c. c \<noteq> 91) hostinfo))
         else takeWhile (\<lambda>c. c \<noteq> 58) hostinfo)"

section \<open>The file system, the network and \<open>TaskScanner.scan\<close>\<close>

text \<open>
  A path as \<open>pathlib\<close> sees it: a regular file, with its path and with what
  \<open>read_text(encoding='utf-8')\<close> returns or raises; a directory, with its path and
  its entries; anything else that exists; and a point at which the walk of a
  directory fails: a path that the walk yields and on which \<open>is_file()\<close> raises
  (\<open>PermissionError\<close> for an entry of a directory that may be listed and not
  searched), or an exception of \<open>rglob\<close> itself while it lists.
\<close>

datatype node =
    File pystr "exc + pystr"
  | Dir pystr "node list"
  | Other pystr
  | Denied pystr exc



text \<open>
  \<open>path.name\<close> is the last component of the path, and \<open>path.suffix\<close> the part of
  the name from its last dot, when that dot is neither the first nor the last
  character of the name (\<open>0 < i < len(name) - 1\<close>).
\<close>

definition path_name :: "pystr \<Rightarrow> pystr" where
  "path_name p = rev (takeWhile (\<lambda>c. c \<noteq> 47) (rev p))"

definition suffix :: "pystr \<Rightarrow> pystr" where
  "suffix p =
     (let name = path_name p
      in case rfind_char 46 name of
           None \<Rightarrow> []
         | Some i \<Rightarrow> if 0 < i \<and> Suc i < length name then drop i name else [])"

text \<open>
  \<open>path.rglob("*")\<close>: everything below a directory, the entries of the directory
  first and then what lies below each of them; nothing for a path that is not a
  directory.
\<close>

fun rglob :: "node \<Rightarrow> node list" where
  "rglob (Dir p entries) = entries @ concat (map rglob entries)"
| "rglob (File p r) = []"
| "rglob (Other p) = []"
| "rglob (Denied p e) = []"

record response =
  status_code :: nat
  content :: pystr

text \<open>
  The collaborators of the scanner: what a target resolves to as a path (\<open>None\<close> when
  \<open>Path(target).exists()\<close> is false, an exception when the lookup itself raises, as
  it does with \<open>OSError\<close> for a name that is too long), what \<open>requests.get\<close> returns
  or raises, the text that \<open>BeautifulSoup(content, 'html.parser').get_text()\<close>
  extracts, what \<open>print\<close> does with a line (\<open>None\<close> when the line is written, the
  exception when it is not, as \<open>UnicodeEncodeError\<close> for a line that the encoding of
  standard output cannot hold), the library's netloc checks and the string hash of
  the process.
\<close>

record world =
  path_lookup :: "pystr \<Rightarrow> exc + node option"
  requests_get :: "pystr \<Rightarrow> exc + response"
  soup_get_text :: "pystr \<Rightarrow> exc + pystr"
  stdout_write :: "pystr \<Rightarrow> exc option"
  netloc_check :: "pystr \<Rightarrow> pystr option"
  str_hash :: "pystr \<Rightarrow> nat"

text \<open>
  The handlers \<open>except Exception as e: print(...)\<close>: the line is printed and the
  function goes on to return its empty list; an exception of \<open>print\<close> leaves the
  handler and the function. \<open>before\<close> are the events up to the handler.
\<close>

definition report :: "world \<Rightarrow> event list \<Rightarrow> pystr \<Rightarrow> pystr list outcome" where
  "report w before line =
     (case stdout_write w line of
        None \<Rightarrow> (before @ [Printed line], Inr [])
      | Some e \<Rightarrow> (before, Inl e))"

definition recognized :: "pystr list" where
  "recognized = [ustr ''.md'', ustr ''.txt'', ustr ''.doc'', ustr ''.pdf'']"

definition pdf_note :: "pystr \<Rightarrow> pystr" where
  "pdf_note file_path = ustr ''Review PDF documentation: '' @ path_name file_path"

text \<open>
  \<open>_analyze_file\<close>: a \<open>.pdf\<close> file is noted by its name and not read; any other file
  is read as UTF-8 text and searched. An \<open>Exception\<close> of the read goes to the
  handler.
\<close>

definition analyze_file :: "world \<Rightarrow> pystr \<Rightarrow> exc + pystr \<Rightarrow> pystr list outcome" where
  "analyze_file w file_path read_text =
     (if suffix file_path = ustr ''.pdf'' then ([], Inr [pdf_note file_path])
      else
        (case read_text of
           Inr file_content \<Rightarrow>
             ([ReadText file_path], Inr (extract_tasks_from_text (str_hash w) file_content))
         | Inl (Exc e) \<Rightarrow>
             report w [ReadText file_path]
               (ustr ''Error analyzing '' @ file_path @ ustr '': '' @ e)
         | Inl (BaseExc e) \<Rightarrow> ([ReadText file_path], Inl (BaseExc e))))"

text \<open>
  The loop of \<open>_scan_filesystem\<close> over the paths of \<open>rglob\<close>, with the list \<open>tasks\<close>
  built so far. The test \<open>file_path.is_file()\<close> stands outside every \<open>try\<close>: an
  exception of it ends the loop and leaves \<open>scan\<close>. A regular file with one of the
  four suffixes is analysed, every other path is passed over.
\<close>

fun scan_entries :: "world \<Rightarrow> node list \<Rightarrow> pystr list \<Rightarrow> pystr list outcome" where
  "scan_entries w [] tasks = ([], Inr tasks)"
| "scan_entries w (File p r # ns) tasks =
     (if suffix p \<in> set recognized then
        (case analyze_file w p r of
           (ev, Inl e) \<Rightarrow> (ev, Inl e)
         | (ev, Inr found) \<Rightarrow>
             (case scan_entries w ns (tasks @ found) of (ev', res) \<Rightarrow> (ev @ ev', res)))
      else scan_entries w ns tasks)"
| "scan_entries w (Dir p entries # ns) tasks = scan_entries w ns tasks"
| "scan_entries w (Other p # ns) tasks = scan_entries w ns tasks"
| "scan_entries w (Denied p e # ns) tasks = ([], Inl e)"

definition scan_filesystem :: "world \<Rightarrow> pystr \<Rightarrow> pystr list outcome" where
  "scan_filesystem w path =
     (case path_lookup w path of
        Inl e \<Rightarrow> ([], Inl e)
      | Inr None \<Rightarrow> ([], Inr [])
      | Inr (Some (File p r)) \<Rightarrow> analyze_file w p r
      | Inr (Some (Denied p e)) \<Rightarrow> ([], Inl e)
      | Inr (Some n) \<Rightarrow> scan_entries w (rglob n) [])"

text \<open>
  \<open>_scan_webpage\<close>: the body of the response is parsed and searched whatever the
  status of the response is; an \<open>Exception\<close> of the request or of the parser goes to
  the handler.
\<close>

definition scan_webpage :: "world \<Rightarrow> pystr \<Rightarrow> pystr list outcome" where
  "scan_webpage w url =
     (case requests_get w url of
        Inl (Exc e) \<Rightarrow>
          report w [HttpGet url] (ustr ''Error scanning webpage '' @ url @ ustr '': '' @ e)
      | Inl (BaseExc e) \<Rightarrow> ([HttpGet url], Inl (BaseExc e))
      | Inr response \<Rightarrow>
          (case soup_get_text w (content response) of
             Inl (Exc e) \<Rightarrow>
               report w [HttpGet url]
                 (ustr ''Error scanning webpage '' @ url @ ustr '': '' @ e)
           | Inl (BaseExc e) \<Rightarrow> ([HttpGet url], Inl (BaseExc e))
           | Inr text \<Rightarrow> ([HttpGet url], Inr (extract_tasks_from_text (str_hash w) text))))"

definition parse_text_description :: "(pystr \<Rightarrow> nat) \<Rightarrow> pystr \<Rightarrow> pystr list outcome" where
  "parse_text_description h text = ([], Inr (extract_tasks_from_text h text))"

text \<open>
  \<open>scan\<close>: the test \<open>Path(target).exists()\<close> comes first and stands outside every
  \<open>try\<close>, so an exception of it leaves \<open>scan\<close>.
\<close>

definition scan :: "world \<Rightarrow> pystr \<Rightarrow> pystr list outcome" where
  "scan w target =
     (case path_lookup w target of
        Inl e \<Rightarrow> ([], Inl e)
      | Inr (Some n) \<Rightarrow> scan_filesystem w target
      | Inr None \<Rightarrow>
          if is_url (netloc_check w) target then scan_webpage w target
          else parse_text_description (str_hash w) target)"

text \<open>
  What one path of the walk adds to the result of a directory scan that runs to its
  end: the placeholder for a \<open>.pdf\<close> file, the tasks found in the text of a file with
  one of the other three suffixes (none when the read raised), nothing for any other
  path.
\<close>

definition walked :: "node \<Rightarrow> bool" where
  "walked n = (case n of File p r \<Rightarrow> suffix p \<in> set recognized | _ \<Rightarrow> False)"

definition file_tasks :: "world \<Rightarrow> node \<Rightarrow> pystr list" where
  "file_tasks w n =
     (case n of
        File p r \<Rightarrow>
          if suffix p = ustr ''.pdf'' then [pdf_note p]
          else (case r of Inr txt \<Rightarrow> extract_tasks_from_text (str_hash w) txt | Inl e \<Rightarrow> [])
      | _ \<Rightarrow> [])"

section \<open>A world to run the scanner in\<close>

text \<open>
  Four directories, two single files, a file whose path also reads as a URL, a host
  that refuses the connection and a server that answers every other request with
  status 404 and a plain-text body. A file that is not valid UTF-8 raises on
  \<open>read_text\<close>; the directory \<open>vault/locked\<close> may be listed and not searched; a
  target of more than 255 characters is refused by the path lookup; standard output
  holds ASCII only.
\<close>

definition office_paths :: "pystr \<Rightarrow> exc + node option" where
  "office_paths target =
     (if target = ustr ''docs'' then
        Inr (Some (Dir (ustr ''docs'')
          [File (ustr ''docs/manual.pdf'') (Inr (ustr ''Manual process: print it.'')),
           File (ustr ''docs/notes.txt'') (Inr (ustr ''Repetitive task: copy rows.'')),
           File (ustr ''docs/photo.png'') (Inl (Exc (ustr ''invalid start byte''))),
           Dir (ustr ''docs/old'')
             [File (ustr ''docs/old/plan.md'') (Inr (ustr ''Human input: sign the form.''))]]))
      else if target = ustr ''inbox'' then
        Inr (Some (Dir (ustr ''inbox'')
          [File (ustr ''inbox/ledger.doc'') (Inl (Exc (ustr ''invalid start byte'')))]))
      else if target = ustr ''media'' then
        Inr (Some (Dir (ustr ''media'')
          [File (ustr ''media/a.png'') (Inl (Exc (ustr ''invalid start byte''))),
           Dir (ustr ''media/raw'') [File (ustr ''media/raw/b.PDF'') (Inr [])]]))
      else if target = ustr ''vault'' then
        Inr (Some (Dir (ustr ''vault'')
          [File (ustr ''vault/b.png'') (Inl (Exc (ustr ''invalid start byte''))),
           Dir (ustr ''vault/locked'')
             [Denied (ustr ''vault/locked/a.png'') (Exc (ustr ''Permission denied''))]]))
      else if target = ustr ''scan.pdf'' then
        Inr (Some (File (ustr ''scan.pdf'') (Inr (ustr ''Manual task: never read''))))
      else if target = ustr ''notes.bin'' then
        Inr (Some (File (ustr ''notes.bin'') (Inr (ustr ''manual step: crop the image''))))
      else if target = ustr ''https://example.com'' then
        Inr (Some (File (ustr ''https:/example.com'') (Inr (ustr ''Manual task: file wins''))))
      else if 255 < length target then Inl (Exc (ustr ''File name too long''))
      else Inr None)"

definition office :: world where
  "office =
     \<lparr>path_lookup = office_paths,
      requests_get = (\<lambda>url.
        if url = ustr ''http://localhost:3000'' then Inl (Exc (ustr ''Connection refused''))
        else Inr \<lparr>status_code = 404, content = ustr ''Manual task: reset the router.''\<rparr>),
      soup_get_text = (\<lambda>c. Inr c),
      stdout_write = (\<lambda>line.
        if list_ex (\<lambda>c. 128 \<le> c) line then Some (Exc (ustr ''ordinal not in range(128)''))
        else None),
      netloc_check = (\<lambda>loc. None),
      str_hash = length\<rparr>"

section \<open>Properties of the extractor\<close>

lemma dropWhile_fixed:
  "dropWhile P (dropWhile P xs) = dropWhile P xs"
  by (induction xs) auto

lemma strip_head: "strip s \<noteq> [] \<Longrightarrow> \<not> isspace (hd (strip s))"
proof -
  assume ne: "strip s \<noteq> []"
  define t where "t = dropWhile isspace s"
  define u where "u = dropWhile isspace (rev t)"
  have su: "strip s = rev u" by (simp add: strip_def t_def u_def)
  from ne su have "u \<noteq> []" by simp
  then have "t \<noteq> []" by (auto simp: u_def)
  then have ht: "\<not> isspace (hd t)" unfolding t_def by (rule hd_dropWhile)
  obtain pre where pre: "rev t = pre @ u"
    unfolding u_def by (metis takeWhile_dropWhile_id)
  then have "t = rev u @ rev pre" by (metis rev_append rev_rev_ident)
  with \<open>u \<noteq> []\<close> have "hd t = hd (rev u)" by simp
  with ht su show ?thesis by simp
qed

lemma strip_last: "strip s \<noteq> [] \<Longrightarrow> \<not> isspace (last (strip s))"
proof -
  assume ne: "strip s \<noteq> []"
  define u where "u = dropWhile isspace (rev (dropWhile isspace s))"
  have su: "strip s = rev u" by (simp add: strip_def u_def)
  from ne su have "u \<noteq> []" by simp
  then have "\<not> isspace (hd u)" unfolding u_def by (rule hd_dropWhile)
  with \<open>u \<noteq> []\<close> su show ?thesis by (simp add: last_rev)
qed

lemma strip_fixed: "strip (strip s) = strip s"
proof (cases "strip s = []")
  case True
  have "strip [] = []" by (simp add: strip_def)
  with True show ?thesis by simp
next
  case False
  define v where "v = strip s"
  from False have h: "\<not> isspace (hd v)" and l: "\<not> isspace (last v)" and ne: "v \<noteq> []"
    by (simp_all add: v_def strip_head strip_last)
  from h ne have d1: "dropWhile isspace v = v"
    by (cases v) auto
  from l ne have d2: "dropWhile isspace (rev v) = rev v"
    by (cases "rev v") (auto simp: last_rev [symmetric] hd_rev)
  show ?thesis
    unfolding v_def [symmetric] by (simp add: strip_def d1 d2)
qed

lemma set_strip: "set (strip s) \<subseteq> set s"
proof -
  have "set (strip s) = set (dropWhile isspace (rev (dropWhile isspace s)))"
    by (simp add: strip_def)
  also have "\<dots> \<subseteq> set (rev (dropWhile isspace s))"
    by (auto dest: set_dropWhileD)
  also have "\<dots> \<subseteq> set s"
    by (auto dest: set_dropWhileD)
  finally show ?thesis .
qed

lemma foldl_extend: "foldl (\<lambda>acc p. acc @ F p) acc0 ps = acc0 @ concat (map F ps)"
  by (induction ps arbitrary: acc0) auto

lemma collect_tasks_concat:
  "collect_tasks text =
     concat (map (\<lambda>p. [strip m. m \<leftarrow> findall p text, strip m \<noteq> []]) patterns)"
  by (simp add: collect_tasks_def foldl_extend)

lemma collect_tasks_elem:
  "e \<in> set (collect_tasks text) \<longleftrightarrow>
     (\<exists>p \<in> set patterns. \<exists>m \<in> set (findall p text). e = strip m \<and> strip m \<noteq> [])"
  by (auto simp: collect_tasks_concat)

lemma set_list_of_set: "set (list_of_set h xs) = set xs"
  by (simp add: list_of_set_def)

lemma distinct_list_of_set: "distinct (list_of_set h xs)"
  by (simp add: list_of_set_def)

lemma set_extract: "set (extract_tasks_from_text h text) = set (collect_tasks text)"
  by (simp add: extract_tasks_from_text_def set_list_of_set)

subsection \<open>What a match of a pattern captures\<close>

lemma findall_elem:
  "m \<in> set (findall p s) \<Longrightarrow> \<exists>t s' g more. run p (t, None) = (s', g) # more \<and> m = group1 g"
proof (induction p s rule: findall.induct)
  case (1 p s)
  show ?case
  proof (cases "run p (s, None)")
    case Nil
    with "1.prems" "1.IH"(1) show ?thesis
      by (subst (asm) findall.simps) (auto split: list.splits)
  next
    case (Cons st more)
    obtain s' g where st: "st = (s', g)" by (cases st)
    from "1.prems" Cons st
    have "m = group1 g \<or> (length s' < length s \<and> m \<in> set (findall p s'))
          \<or> (\<not> length s' < length s \<and> (\<exists>c r. s = c # r \<and> m \<in> set (findall p r)))"
      by (subst (asm) findall.simps) (auto split: list.splits if_splits)
    then show ?thesis
    proof (elim disjE conjE exE)
      assume "m = group1 g"
      with Cons st show ?thesis by blast
    next
      assume "length s' < length s" "m \<in> set (findall p s')"
      with "1.IH"(2) Cons st show ?thesis by blast
    next
      fix c r assume "\<not> length s' < length s" "s = c # r" "m \<in> set (findall p r)"
      with "1.IH"(3) Cons st show ?thesis by blast
    qed
  qed
qed

lemma run_Seq_snoc: "run (Seq (rs @ [r])) st = concat (map (run r) (run (Seq rs) st))"
  by simp

lemma run_Seq_last_inv:
  assumes "rs \<noteq> []" and "last rs = r"
    and "\<And>st' x. x \<in> set (run r st') \<Longrightarrow> Q x"
    and "x \<in> set (run (Seq rs) st)"
  shows "Q x"
proof -
  from assms(1,2) have "rs = butlast rs @ [r]" by (metis append_butlast_last_id)
  then have "run (Seq rs) st = concat (map (run r) (run (Seq (butlast rs)) st))"
    by (metis run_Seq_snoc)
  with assms(4) obtain st' where "x \<in> set (run r st')" by auto
  then show ?thesis by (rule assms(3))
qed

lemma take_within_takeWhile:
  "k \<le> length (takeWhile P s) \<Longrightarrow> take k s = take k (takeWhile P s)"
  by (induction s arbitrary: k) (auto simp: take_Cons split: nat.splits if_splits)

lemma run_Group_Plus:
  assumes "(s', g') \<in> set (run (Group (Plus cs)) (s, g))"
  shows "\<exists>m. g' = Some m \<and> m \<noteq> [] \<and> (\<forall>c \<in> set m. in_cset cs c)"
proof -
  define n where "n = length (takeWhile (in_cset cs) s)"
  from assms obtain k where k: "1 \<le> k" "k \<le> n"
    and g': "g' = Some (take (length s - length (drop k s)) s)"
    by (auto simp: n_def)
  have nle: "n \<le> length s" unfolding n_def by (rule length_takeWhile_le)
  with k have tk: "take (length s - length (drop k s)) s = take k s" by simp
  from k nle have ne: "take k s \<noteq> []" by auto
  from k have "take k s = take k (takeWhile (in_cset cs) s)"
    unfolding n_def by (simp add: take_within_takeWhile)
  then have "set (take k s) \<subseteq> set (takeWhile (in_cset cs) s)"
    by (metis set_take_subset)
  then have "\<forall>c \<in> set (take k s). in_cset cs c"
    by (auto dest: set_takeWhileD)
  with g' tk ne show ?thesis by simp
qed

lemma pattern_capture:
  assumes "p \<in> set patterns" and "x \<in> set (run p st)"
  shows "\<exists>m. snd x = Some m \<and> m \<noteq> [] \<and> (\<forall>c \<in> set m. in_cset not_dot_nl c)"
proof -
  define Q where
    "Q = (\<lambda>y :: mstate. \<exists>m. snd y = Some m \<and> m \<noteq> [] \<and> (\<forall>c \<in> set m. in_cset not_dot_nl c))"
  have grp: "\<And>st' y. y \<in> set (run (Group (Plus not_dot_nl)) st') \<Longrightarrow> Q y"
  proof -
    fix st' y assume y: "y \<in> set (run (Group (Plus not_dot_nl)) st')"
    obtain s g where "st' = (s, g)" by (cases st')
    moreover obtain s' g' where "y = (s', g')" by (cases y)
    ultimately show "Q y"
      using y run_Group_Plus [of s' g' not_dot_nl s g] by (simp add: Q_def)
  qed
  from assms(1) obtain rs where p: "p = Seq rs" and ne: "rs \<noteq> []"
    and l: "last rs = Group (Plus not_dot_nl)"
    by (auto simp: patterns_def)
  from assms(2) p have "x \<in> set (run (Seq rs) st)" by simp
  with ne l grp have "Q x"
    using run_Seq_last_inv [where Q = Q and rs = rs and x = x and st = st]
    by blast
  then show ?thesis by (simp add: Q_def)
qed

lemma not_dot_nl_iff: "in_cset not_dot_nl c \<longleftrightarrow> c \<noteq> 46 \<and> c \<noteq> 10"
  by (simp add: not_dot_nl_def ci_match_def ci_variants_def)

lemma findall_pattern_elem:
  assumes "p \<in> set patterns" and "m \<in> set (findall p text)"
  shows "m \<noteq> [] \<and> 46 \<notin> set m \<and> 10 \<notin> set m"
proof -
  from findall_elem [OF assms(2)] obtain t s' g more
    where r: "run p (t, None) = (s', g) # more" and m: "m = group1 g" by blast
  from r have "(s', g) \<in> set (run p (t, None))" by simp
  from pattern_capture [OF assms(1) this] m show ?thesis
    by (auto simp: group1_def not_dot_nl_iff)
qed

lemma findall_no_match: "search p s = None \<Longrightarrow> findall p s = []"
proof (induction s)
  case Nil
  then show ?case by (subst findall.simps) (simp split: list.splits)
next
  case (Cons c s)
  then show ?case by (subst findall.simps) (simp split: list.splits)
qed

subsection \<open>Evaluation on given texts\<close>

lemmas eval_simps = patterns_def findall.simps ustr_def ci_match_def ci_variants_def
  isspace_def strip_def group1_def ws_def colon_ws_def not_dot_nl_def

lemma collect_example:
  "collect_tasks
     (ustr ''Currently done manually: data entry process. Manual task: report generation.'')
   = [ustr ''report generation'', ustr ''data entry process'']"
  by (simp add: collect_tasks_def eval_simps)

text \<open>
  A capture ends at a line feed. A cue followed by nothing but a colon and a space
  still matches, with the space as its capture, and the stripped capture is dropped.
\<close>

lemma collect_line_feed:
  "collect_tasks (ustr ''Manual step: save'' @ [10] @ ustr ''the file. Done'') = [ustr ''save'']"
  by (simp add: collect_tasks_def eval_simps)

lemma findall_blank_capture:
  "findall (hd patterns) (ustr ''manual task: '') = [ustr '' ''] \<and>
   collect_tasks (ustr ''manual task: '') = []"
  by (simp add: collect_tasks_def eval_simps)

lemma collect_twice:
  "collect_tasks (ustr ''Manual task: x. manual step:  x '') = [ustr ''x'', ustr ''x'']"
  by (simp add: collect_tasks_def eval_simps)

lemma collect_clause:
  "collect_tasks (ustr ''Human input: type the code. Then wait'') = [ustr ''type the code'']"
  by (simp add: collect_tasks_def eval_simps)

subsection \<open>The claims about the extractor\<close>

text \<open>
  C1. For every text and every hash seed, each task that
  \<open>_extract_tasks_from_text\<close> returns is a non-empty string that \<open>strip\<close> leaves
  unchanged, and the returned list has no element twice.
\<close>

theorem extract_trimmed_distinct:
  "(\<forall>e \<in> set (extract_tasks_from_text h text). e \<noteq> [] \<and> strip e = e) \<and>
   distinct (extract_tasks_from_text h text)"
proof
  show "\<forall>e \<in> set (extract_tasks_from_text h text). e \<noteq> [] \<and> strip e = e"
    by (auto simp: set_extract collect_tasks_elem strip_fixed)
  show "distinct (extract_tasks_from_text h text)"
    by (simp add: extract_tasks_from_text_def distinct_list_of_set)
qed

text \<open>
  The text \<open>Manual task: x. manual step:  x\<close> matches the first pattern twice with
  the same stripped capture; the result holds it once.
\<close>

theorem extract_trimmed_distinct_witness:
  "collect_tasks (ustr ''Manual task: x. manual step:  x '') = [ustr ''x'', ustr ''x''] \<and>
   ustr ''x'' \<in> set (extract_tasks_from_text length (ustr ''Manual task: x. manual step:  x '')) \<and>
   ustr ''x'' \<noteq> [] \<and> strip (ustr ''x'') = ustr ''x'' \<and>
   distinct (extract_tasks_from_text length (ustr ''Manual task: x. manual step:  x ''))"
proof -
  have m: "ustr ''x'' \<in>
      set (extract_tasks_from_text length (ustr ''Manual task: x. manual step:  x ''))"
    by (simp add: set_extract collect_twice)
  from collect_twice m
    extract_trimmed_distinct [of length "ustr ''Manual task: x. manual step:  x ''"]
  show ?thesis by blast
qed

text \<open>
  C2. On the text \<open>Currently done manually: data entry process. Manual task: report
  generation.\<close> the extractor returns, for every hash seed, an entry that contains
  \<open>data entry\<close> and an entry that contains \<open>report generation\<close>.
\<close>

theorem extract_example:
  "(\<exists>e \<in> set (extract_tasks_from_text h
        (ustr ''Currently done manually: data entry process. Manual task: report generation.'')).
      contains e (ustr ''data entry'')) \<and>
   (\<exists>e \<in> set (extract_tasks_from_text h
        (ustr ''Currently done manually: data entry process. Manual task: report generation.'')).
      contains e (ustr ''report generation''))"
proof -
  have "contains (ustr ''data entry process'') (ustr ''data entry'')"
    by (simp add: ustr_def)
  moreover have "contains (ustr ''report generation'') (ustr ''report generation'')"
    by (simp add: ustr_def)
  ultimately show ?thesis
    unfolding set_extract collect_example by simp
qed

text \<open>
  C7. When none of the four patterns occurs in the text, that is, when \<open>re.search\<close>
  finds no match of any of them, the extractor returns the empty list.
\<close>

theorem extract_no_cue:
  assumes "\<forall>p \<in> set patterns. search p text = None"
  shows "extract_tasks_from_text h text = []"
proof -
  from assms have "\<forall>p \<in> set patterns. findall p text = []"
    by (simp add: findall_no_match)
  then have "collect_tasks text = []"
    by (simp add: collect_tasks_concat)
  then show ?thesis
    by (simp add: extract_tasks_from_text_def list_of_set_def)
qed

theorem extract_no_cue_witness:
  "list_all (\<lambda>p. search p (ustr ''The pipeline runs nightly.'') = None) patterns \<and>
   extract_tasks_from_text length (ustr ''The pipeline runs nightly.'') = []"
proof -
  have h: "\<forall>p \<in> set patterns. search p (ustr ''The pipeline runs nightly.'') = None"
    by (simp add: eval_simps)
  from h extract_no_cue [OF h, of length] show ?thesis
    by (simp add: list_all_iff)
qed

text \<open>
  C9. The set of tasks extracted from a text does not depend on the hash seed, the
  only state outside the text that the extractor's result can vary with: any two runs
  on the same text return the same set.
\<close>

theorem extract_deterministic:
  "set (extract_tasks_from_text h text) = set (extract_tasks_from_text h' text)"
  by (simp add: set_extract)

text \<open>
  C10. No task that the extractor returns contains a full stop (code point 46) or a
  line feed (code point 10): the capture of every pattern is a run of characters
  other than these two, and stripping only removes characters.
\<close>

theorem extract_single_clause:
  "\<forall>e \<in> set (extract_tasks_from_text h text). 46 \<notin> set e \<and> 10 \<notin> set e"
proof
  fix e assume "e \<in> set (extract_tasks_from_text h text)"
  then obtain p m where p: "p \<in> set patterns" and m: "m \<in> set (findall p text)"
    and e: "e = strip m"
    by (auto simp: set_extract collect_tasks_elem)
  from findall_pattern_elem [OF p m] have "46 \<notin> set m \<and> 10 \<notin> set m" by simp
  with set_strip [of m] e show "46 \<notin> set e \<and> 10 \<notin> set e" by auto
qed

theorem extract_single_clause_witness:
  "ustr ''type the code'' \<in>
     set (extract_tasks_from_text length (ustr ''Human input: type the code. Then wait'')) \<and>
   46 \<notin> set (ustr ''type the code'') \<and> 10 \<notin> set (ustr ''type the code'')"
proof -
  have m: "ustr ''type the code'' \<in>
      set (extract_tasks_from_text length (ustr ''Human input: type the code. Then wait''))"
    by (simp add: set_extract collect_clause)
  from m extract_single_clause [of length "ustr ''Human input: type the code. Then wait''"]
  show ?thesis by blast
qed

section \<open>Properties of URL classification\<close>

lemmas url_simps = is_url_def urlparse_def split_scheme_def splitnetloc_def ustr_def
  c0_control_or_space_def unsafe_url_byte_def ascii_alpha_def scheme_char_def ascii_lower_def
  netloc_delim_def

lemma find_char_append:
  "c \<notin> set pre \<Longrightarrow> find_char c (pre @ c # post) = Some (length pre)"
  by (induction pre) auto

lemma find_char_split:
  "find_char c xs = Some i \<Longrightarrow> xs = take i xs @ c # drop (Suc i) xs \<and> i < length xs"
proof (induction xs arbitrary: i)
  case Nil
  then show ?case by simp
next
  case (Cons x xs)
  show ?case
  proof (cases "x = c")
    case True
    with Cons.prems show ?thesis by simp
  next
    case False
    with Cons.prems obtain j where j: "find_char c xs = Some j" and i: "i = Suc j"
      by auto
    from Cons.IH [OF j] i show ?thesis by simp
  qed
qed

lemma scheme_char_not_colon: "list_all scheme_char sch \<Longrightarrow> 58 \<notin> set sch"
  by (auto simp: list_all_iff scheme_char_def ascii_alpha_def)

lemma takeWhile_stop:
  "list_all P loc \<Longrightarrow> list_all (\<lambda>c. \<not> P c) (take 1 post) \<Longrightarrow>
     takeWhile P (loc @ post) = loc \<and> dropWhile P (loc @ post) = post"
proof (induction loc)
  case Nil
  then show ?case by (cases post) auto
next
  case (Cons c loc)
  then show ?case by simp
qed

lemma dropWhile_head: "list_all (\<lambda>c. \<not> P c) (take 1 (dropWhile P xs))"
  by (induction xs) auto

lemma takeWhile_all: "list_all P (takeWhile P xs)"
  by (induction xs) auto

lemma split_scheme_shape:
  assumes "sch \<noteq> []" and "list_all ascii_alpha (take 1 sch)" and "list_all scheme_char sch"
  shows "split_scheme (sch @ 58 # post) = (map ascii_lower sch, post)"
proof -
  from assms(3) have "58 \<notin> set sch" by (rule scheme_char_not_colon)
  then have "find_char 58 (sch @ 58 # post) = Some (length sch)" by (rule find_char_append)
  moreover from assms(1) have "take 1 (sch @ 58 # post) = take 1 sch" by (cases sch) auto
  ultimately show ?thesis using assms by (simp add: split_scheme_def)
qed

lemma split_scheme_cases:
  assumes "split_scheme url = (s, post)" and "s \<noteq> []"
  shows "\<exists>sch. url = sch @ 58 # post \<and> sch \<noteq> [] \<and> list_all ascii_alpha (take 1 sch) \<and>
           list_all scheme_char sch \<and> s = map ascii_lower sch"
proof (cases "find_char 58 url")
  case None
  with assms show ?thesis by (simp add: split_scheme_def)
next
  case (Some i)
  from find_char_split [OF Some] have u: "url = take i url @ 58 # drop (Suc i) url"
    and i: "i < length url" by simp_all
  from assms Some have c: "0 < i" "list_all ascii_alpha (take 1 url)"
    "list_all scheme_char (take i url)" and s: "s = map ascii_lower (take i url)"
    and m: "post = drop (Suc i) url"
    by (auto simp: split_scheme_def split: if_splits)
  from c(1) have "take 1 (take i url) = take 1 url" by (simp add: min_def)
  with c i u s m have "url = take i url @ 58 # post \<and> take i url \<noteq> [] \<and>
      list_all ascii_alpha (take 1 (take i url)) \<and> list_all scheme_char (take i url) \<and>
      s = map ascii_lower (take i url)"
    by auto
  then show ?thesis by blast
qed


lemma drop_two: "take 2 xs = [a, b] \<Longrightarrow> xs = a # b # drop 2 xs"
  by (metis append_take_drop_id append_Cons append_Nil)

text \<open>
  The strings that \<open>_is_url\<close> accepts, described without the parser: after the
  leading control characters and spaces are stripped and tab, carriage return and
  line feed are deleted, the string is a scheme, \<open>://\<close>, a netloc that is not empty
  and passes the checks, and a remainder that is empty or starts with \<open>/\<close>, \<open>?\<close> or
  \<open>#\<close>.
\<close>

lemma is_url_shape:
  "is_url check string =
     (\<exists>sch loc post.
        filter (\<lambda>c. \<not> unsafe_url_byte c) (dropWhile c0_control_or_space string) =
          sch @ [58, 47, 47] @ loc @ post \<and>
        sch \<noteq> [] \<and> list_all ascii_alpha (take 1 sch) \<and> list_all scheme_char sch \<and>
        loc \<noteq> [] \<and> list_all (\<lambda>c. \<not> netloc_delim c) loc \<and>
        list_all netloc_delim (take 1 post) \<and>
        (91 \<in> set loc) = (93 \<in> set loc) \<and>
        (91 \<in> set loc \<or> list_ex (\<lambda>c. 128 \<le> c) loc \<longrightarrow> check loc = None))"
proof
  let ?url = "filter (\<lambda>c. \<not> unsafe_url_byte c) (dropWhile c0_control_or_space string)"
  let ?C = "\<lambda>sch loc post.
        sch \<noteq> [] \<and> list_all ascii_alpha (take 1 sch) \<and> list_all scheme_char sch \<and>
        loc \<noteq> [] \<and> list_all (\<lambda>c. \<not> netloc_delim c) loc \<and>
        list_all netloc_delim (take 1 post) \<and>
        (91 \<in> set loc) = (93 \<in> set loc) \<and>
        (91 \<in> set loc \<or> list_ex (\<lambda>c. 128 \<le> c) loc \<longrightarrow> check loc = None)"
  assume u: "is_url check string"
  obtain s url2 where ss: "split_scheme ?url = (s, url2)" by (cases "split_scheme ?url")
  define loc where "loc = takeWhile (\<lambda>c. \<not> netloc_delim c) (drop 2 url2)"
  define post where "post = dropWhile (\<lambda>c. \<not> netloc_delim c) (drop 2 url2)"
  have two: "take 2 url2 = [47, 47]"
    using u ss by (auto simp: is_url_def urlparse_def Let_def split: if_splits)
  from u ss two have r: "s \<noteq> []" "loc \<noteq> []" "(91 \<in> set loc) = (93 \<in> set loc)"
    "91 \<in> set loc \<or> list_ex (\<lambda>c. 128 \<le> c) loc \<longrightarrow> check loc = None"
    by (auto simp: is_url_def urlparse_def Let_def splitnetloc_def loc_def
        split: if_splits option.splits)
  from split_scheme_cases [OF ss r(1)] obtain sch where sch: "?url = sch @ 58 # url2"
    "sch \<noteq> []" "list_all ascii_alpha (take 1 sch)" "list_all scheme_char sch" by blast
  have "drop 2 url2 = loc @ post" by (simp add: loc_def post_def)
  with drop_two [OF two] have "url2 = 47 # 47 # loc @ post" by simp
  with sch(1) have "?url = sch @ [58, 47, 47] @ loc @ post" by simp
  moreover have "list_all (\<lambda>c. \<not> netloc_delim c) loc"
    unfolding loc_def by (rule takeWhile_all)
  moreover have "list_all netloc_delim (take 1 post)"
    using dropWhile_head [of "\<lambda>c. \<not> netloc_delim c" "drop 2 url2"] by (simp add: post_def)
  ultimately show "\<exists>sch loc post. ?url = sch @ [58, 47, 47] @ loc @ post \<and> ?C sch loc post"
    using sch r by blast
next
  let ?url = "filter (\<lambda>c. \<not> unsafe_url_byte c) (dropWhile c0_control_or_space string)"
  assume "\<exists>sch loc post. ?url = sch @ [58, 47, 47] @ loc @ post \<and>
        sch \<noteq> [] \<and> list_all ascii_alpha (take 1 sch) \<and> list_all scheme_char sch \<and>
        loc \<noteq> [] \<and> list_all (\<lambda>c. \<not> netloc_delim c) loc \<and>
        list_all netloc_delim (take 1 post) \<and>
        (91 \<in> set loc) = (93 \<in> set loc) \<and>
        (91 \<in> set loc \<or> list_ex (\<lambda>c. 128 \<le> c) loc \<longrightarrow> check loc = None)"
  then obtain sch loc post where url: "?url = sch @ [58, 47, 47] @ loc @ post"
    and c: "sch \<noteq> []" "list_all ascii_alpha (take 1 sch)" "list_all scheme_char sch"
      "loc \<noteq> []" "list_all (\<lambda>c. \<not> netloc_delim c) loc" "list_all netloc_delim (take 1 post)"
      "(91 \<in> set loc) = (93 \<in> set loc)"
      "91 \<in> set loc \<or> list_ex (\<lambda>c. 128 \<le> c) loc \<longrightarrow> check loc = None"
    by blast
  from url have "?url = sch @ 58 # (47 # 47 # loc @ post)" by simp
  with split_scheme_shape [OF c(1,2,3)]
  have ss: "split_scheme ?url = (map ascii_lower sch, 47 # 47 # loc @ post)" by simp
  from c(6) have "list_all (\<lambda>c. \<not> \<not> netloc_delim c) (take 1 post)" by simp
  from takeWhile_stop [OF c(5) this]
  have sn: "splitnetloc (47 # 47 # loc @ post) = (loc, post)"
    by (simp add: splitnetloc_def)
  from ss sn c show "is_url check string"
    by (auto simp: is_url_def urlparse_def Let_def split: option.splits)
qed

lemma urlparse_example_com:
  "urlparse check (ustr ''https://example.com'') =
     Inr \<lparr>scheme = ustr ''https'', netloc = ustr ''example.com'', rest = []\<rparr>"
  by (simp add: url_simps)

lemma urlparse_localhost:
  "urlparse check (ustr ''http://localhost:3000'') =
     Inr \<lparr>scheme = ustr ''http'', netloc = ustr ''localhost:3000'', rest = []\<rparr>"
  by (simp add: url_simps)

lemma urlparse_not_a_url:
  "urlparse check (ustr ''not a url'') =
     Inr \<lparr>scheme = [], netloc = [], rest = ustr ''not a url''\<rparr>"
  by (simp add: url_simps)

lemma urlparse_file_txt:
  "urlparse check (ustr ''file.txt'') =
     Inr \<lparr>scheme = [], netloc = [], rest = ustr ''file.txt''\<rparr>"
  by (simp add: url_simps)

lemma urlparse_mixed_case:
  "urlparse check (ustr ''  HTTP://Example.com/a?b#c'') =
     Inr \<lparr>scheme = ustr ''http'', netloc = ustr ''Example.com'', rest = ustr ''/a?b#c''\<rparr>"
  by (simp add: url_simps)

lemma urlparse_no_netloc:
  "urlparse check (ustr ''http://'') = Inr \<lparr>scheme = ustr ''http'', netloc = [], rest = []\<rparr>"
  by (simp add: url_simps)

lemma urlparse_port_only:
  "urlparse check (ustr ''http://:80'') =
     Inr \<lparr>scheme = ustr ''http'', netloc = ustr '':80'', rest = []\<rparr>"
  by (simp add: url_simps)

lemma urlparse_user_only:
  "urlparse check (ustr ''http://@'') =
     Inr \<lparr>scheme = ustr ''http'', netloc = ustr ''@'', rest = []\<rparr>"
  by (simp add: url_simps)

lemma hostname_examples:
  "hostinfo_hostname (ustr ''example.com'') = ustr ''example.com''"
  "hostinfo_hostname (ustr ''localhost:3000'') = ustr ''localhost''"
  "hostinfo_hostname (ustr ''user:pw@[::1]:8080'') = ustr ''::1''"
  "hostinfo_hostname (ustr '':80'') = []"
  "hostinfo_hostname (ustr ''@'') = []"
  by (simp_all add: hostinfo_hostname_def ustr_def)

lemma is_url_localhost: "is_url check (ustr ''http://localhost:3000'')"
  by (simp add: url_simps)


lemma is_url_missing: "is_url check (ustr ''https://example.org/missing'')"
  by (simp add: url_simps)



text \<open>
  C5, as stated, fails: \<open>_is_url\<close> tests the netloc, not the host. For
  \<open>http://:80\<close> and \<open>http://@\<close> the parse has a scheme and a netloc (\<open>:80\<close>, \<open>@\<close>),
  its host name is empty (\<open>result.hostname\<close> is \<open>None\<close>), and \<open>_is_url\<close> answers
  true.
\<close>

theorem is_url_no_host_counterexample:
  "is_url (\<lambda>loc. None) (ustr ''http://:80'') \<and>
   urlparse (\<lambda>loc. None) (ustr ''http://:80'') =
     Inr \<lparr>scheme = ustr ''http'', netloc = ustr '':80'', rest = []\<rparr> \<and>
   hostinfo_hostname (ustr '':80'') = [] \<and>
   is_url (\<lambda>loc. None) (ustr ''http://@'') \<and>
   urlparse (\<lambda>loc. None) (ustr ''http://@'') =
     Inr \<lparr>scheme = ustr ''http'', netloc = ustr ''@'', rest = []\<rparr> \<and>
   hostinfo_hostname (ustr ''@'') = []"
  by (simp add: urlparse_port_only urlparse_user_only hostname_examples is_url_def)
     (simp add: ustr_def)

text \<open>
  C5, amended. \<open>_is_url\<close> answers true for a string exactly when \<open>urlparse\<close>
  returns a result whose scheme and whose netloc are both not empty, where the netloc
  is the text between \<open>//\<close> and the next \<open>/\<close>, \<open>?\<close> or \<open>#\<close> and may hold user
  information or a port and no host name. These are exactly the strings of the shape
  scheme, \<open>://\<close>, non-empty netloc, remainder. It is false for \<open>not a url\<close>,
  \<open>file.txt\<close> and \<open>http://\<close>, and true for \<open>https://example.com\<close>,
  \<open>http://localhost:3000\<close> and \<open>http://:80\<close>.
\<close>

theorem is_url_scheme_and_netloc:
  "is_url check string =
     (\<exists>result. urlparse check string = Inr result \<and>
        scheme result \<noteq> [] \<and> netloc result \<noteq> []) \<and>
   is_url check string =
     (\<exists>sch loc post.
        filter (\<lambda>c. \<not> unsafe_url_byte c) (dropWhile c0_control_or_space string) =
          sch @ [58, 47, 47] @ loc @ post \<and>
        sch \<noteq> [] \<and> list_all ascii_alpha (take 1 sch) \<and> list_all scheme_char sch \<and>
        loc \<noteq> [] \<and> list_all (\<lambda>c. \<not> netloc_delim c) loc \<and>
        list_all netloc_delim (take 1 post) \<and>
        (91 \<in> set loc) = (93 \<in> set loc) \<and>
        (91 \<in> set loc \<or> list_ex (\<lambda>c. 128 \<le> c) loc \<longrightarrow> check loc = None)) \<and>
   is_url check (ustr ''https://example.com'') \<and>
   is_url check (ustr ''http://localhost:3000'') \<and>
   \<not> is_url check (ustr ''not a url'') \<and>
   \<not> is_url check (ustr ''file.txt'') \<and>
   \<not> is_url check (ustr ''http://'') \<and>
   is_url check (ustr ''http://:80'')"
proof -
  have "is_url check string =
     (\<exists>result. urlparse check string = Inr result \<and>
        scheme result \<noteq> [] \<and> netloc result \<noteq> [])"
    by (cases "urlparse check string") (simp_all add: is_url_def)
  moreover note is_url_shape [of check string]
  moreover have "is_url check (ustr ''https://example.com'')"
    by (simp add: is_url_def urlparse_example_com) (simp add: ustr_def)
  moreover have "is_url check (ustr ''http://localhost:3000'')"
    by (simp add: is_url_def urlparse_localhost) (simp add: ustr_def)
  moreover have "\<not> is_url check (ustr ''not a url'')"
    by (simp add: is_url_def urlparse_not_a_url)
  moreover have "\<not> is_url check (ustr ''file.txt'')"
    by (simp add: is_url_def urlparse_file_txt)
  moreover have "\<not> is_url check (ustr ''http://'')"
    by (simp add: is_url_def urlparse_no_netloc)
  moreover have "is_url check (ustr ''http://:80'')"
    by (simp add: is_url_def urlparse_port_only) (simp add: ustr_def)
  ultimately show ?thesis by blast
qed

theorem is_url_scheme_and_netloc_witness:
  "is_url (\<lambda>loc. None) (ustr ''http://[::1]:8080/x'') \<and>
   urlparse (\<lambda>loc. None) (ustr ''http://[::1]:8080/x'') =
     Inr \<lparr>scheme = ustr ''http'', netloc = ustr ''[::1]:8080'', rest = ustr ''/x''\<rparr> \<and>
   91 \<in> set (ustr ''[::1]:8080'')"
proof -
  have d: "\<exists>sch loc post.
        filter (\<lambda>c. \<not> unsafe_url_byte c)
          (dropWhile c0_control_or_space (ustr ''http://[::1]:8080/x'')) =
          sch @ [58, 47, 47] @ loc @ post \<and>
        sch \<noteq> [] \<and> list_all ascii_alpha (take 1 sch) \<and> list_all scheme_char sch \<and>
        loc \<noteq> [] \<and> list_all (\<lambda>c. \<not> netloc_delim c) loc \<and>
        list_all netloc_delim (take 1 post) \<and>
        (91 \<in> set loc) = (93 \<in> set loc) \<and>
        (91 \<in> set loc \<or> list_ex (\<lambda>c. 128 \<le> c) loc \<longrightarrow> (\<lambda>loc. None) loc = None)"
    by (intro exI [of _ "ustr ''http''"] exI [of _ "ustr ''[::1]:8080''"]
          exI [of _ "ustr ''/x''"])
       (simp add: ustr_def unsafe_url_byte_def c0_control_or_space_def ascii_alpha_def
          scheme_char_def netloc_delim_def)
  from d is_url_scheme_and_netloc [of "\<lambda>loc. None" "ustr ''http://[::1]:8080/x''"]
  have "is_url (\<lambda>loc. None) (ustr ''http://[::1]:8080/x'')" by blast
  moreover have "urlparse (\<lambda>loc. None) (ustr ''http://[::1]:8080/x'') =
     Inr \<lparr>scheme = ustr ''http'', netloc = ustr ''[::1]:8080'', rest = ustr ''/x''\<rparr>"
    by (simp add: url_simps)
  moreover have "91 \<in> set (ustr ''[::1]:8080'')" by (simp add: ustr_def)
  ultimately show ?thesis by blast
qed

section \<open>Properties of \<open>scan\<close>\<close>

subsection \<open>Events and results of the handlers and of the directory loop\<close>

lemma report_events:
  "ev \<in> set (fst (report w before line)) \<Longrightarrow> ev \<in> set before \<or> ev = Printed line"
  by (auto simp: report_def split: option.splits)

lemma report_before: "set before \<subseteq> set (fst (report w before line))"
  by (auto simp: report_def split: option.splits)

lemma report_result: "snd (report w before line) = Inr found \<Longrightarrow> found = []"
  by (auto simp: report_def split: option.splits)

lemma scan_webpage_print_fails:
  "requests_get w url = Inl (Exc e) \<Longrightarrow>
   stdout_write w (ustr ''Error scanning webpage '' @ url @ ustr '': '' @ e) = Some e' \<Longrightarrow>
     scan_webpage w url = ([HttpGet url], Inl e')"
  by (simp add: scan_webpage_def report_def)

lemma analyze_file_events:
  "ev \<in> set (fst (analyze_file w p r)) \<Longrightarrow>
     (ev = ReadText p \<and> suffix p \<noteq> ustr ''.pdf'') \<or> (\<exists>msg. ev = Printed msg)"
  by (auto simp: analyze_file_def split: if_splits sum.splits exc.splits dest!: report_events)

lemma analyze_file_reads:
  "suffix p \<noteq> ustr ''.pdf'' \<Longrightarrow> ReadText p \<in> set (fst (analyze_file w p r))"
  using report_before [of "[ReadText p]" w]
  by (auto simp: analyze_file_def split: sum.splits exc.splits)

lemma analyze_file_result:
  "snd (analyze_file w p r) = Inr found \<Longrightarrow> found = file_tasks w (File p r)"
  by (auto simp: analyze_file_def file_tasks_def split: if_splits sum.splits exc.splits
      dest: report_result)

lemma scan_entries_events:
  "ev \<in> set (fst (scan_entries w ns tasks)) \<Longrightarrow>
     (\<exists>p r. ev = ReadText p \<and> File p r \<in> set ns \<and> suffix p \<in> set recognized \<and>
        suffix p \<noteq> ustr ''.pdf'') \<or> (\<exists>msg. ev = Printed msg)"
proof (induction w ns tasks rule: scan_entries.induct)
  case (2 w p r ns tasks)
  show ?case
  proof (cases "suffix p \<in> set recognized")
    case False
    with 2 show ?thesis by auto
  next
    case True
    obtain ev1 res1 where a: "analyze_file w p r = (ev1, res1)" by (cases "analyze_file w p r")
    show ?thesis
    proof (cases res1)
      case (Inl e)
      with 2(3) True a have "ev \<in> set (fst (analyze_file w p r))" by simp
      from analyze_file_events [OF this] True show ?thesis by auto
    next
      case (Inr found)
      obtain ev2 res2 where b: "scan_entries w ns (tasks @ found) = (ev2, res2)"
        by (cases "scan_entries w ns (tasks @ found)")
      from 2(3) True a Inr b have "ev \<in> set ev1 \<or> ev \<in> set ev2" by auto
      then show ?thesis
      proof
        assume "ev \<in> set ev1"
        with a have "ev \<in> set (fst (analyze_file w p r))" by simp
        from analyze_file_events [OF this] True show ?thesis by auto
      next
        assume "ev \<in> set ev2"
        with b have "ev \<in> set (fst (scan_entries w ns (tasks @ found)))" by simp
        from 2(1) [OF True a [symmetric] Inr this] show ?thesis by auto
      qed
    qed
  qed
qed auto


lemma scan_entries_result:
  "snd (scan_entries w ns tasks) = Inr res \<Longrightarrow>
     res = tasks @ concat (map (file_tasks w) (filter walked ns)) \<and>
     (\<forall>p r. File p r \<in> set ns \<and> suffix p \<in> set recognized \<and> suffix p \<noteq> ustr ''.pdf'' \<longrightarrow>
        ReadText p \<in> set (fst (scan_entries w ns tasks)))"
proof (induction w ns tasks arbitrary: res rule: scan_entries.induct)
  case (1 w tasks)
  then show ?case by simp
next
  case (2 w p r ns tasks)
  show ?case
  proof (cases "suffix p \<in> set recognized")
    case False
    with 2(2) [OF False] 2(3) show ?thesis by (auto simp: walked_def)
  next
    case True
    obtain ev1 res1 where a: "analyze_file w p r = (ev1, res1)" by (cases "analyze_file w p r")
    show ?thesis
    proof (cases res1)
      case (Inl e)
      with 2(3) True a show ?thesis by simp
    next
      case (Inr found)
      obtain ev2 res2 where b: "scan_entries w ns (tasks @ found) = (ev2, res2)"
        by (cases "scan_entries w ns (tasks @ found)")
      from 2(3) True a Inr b have s: "snd (scan_entries w ns (tasks @ found)) = Inr res"
        and ev: "fst (scan_entries w (File p r # ns) tasks) = ev1 @ ev2" by simp_all
      from a Inr have f: "found = file_tasks w (File p r)"
        using analyze_file_result [of w p r found] by simp
      from a have rd: "suffix p \<noteq> ustr ''.pdf'' \<Longrightarrow> ReadText p \<in> set ev1"
        using analyze_file_reads [of p w r] by simp
      from 2(1) [OF True a [symmetric] Inr s] b
      have ih: "res = (tasks @ found) @ concat (map (file_tasks w) (filter walked ns))"
        "\<forall>q rq. File q rq \<in> set ns \<and> suffix q \<in> set recognized \<and> suffix q \<noteq> ustr ''.pdf'' \<longrightarrow>
           ReadText q \<in> set ev2" by simp_all
      from ih(1) f True have "res = tasks @
          concat (map (file_tasks w) (filter walked (File p r # ns)))"
        by (simp add: walked_def)
      moreover from ih(2) rd ev
      have "\<forall>q rq. File q rq \<in> set (File p r # ns) \<and> suffix q \<in> set recognized \<and>
          suffix q \<noteq> ustr ''.pdf'' \<longrightarrow>
          ReadText q \<in> set (fst (scan_entries w (File p r # ns) tasks))"
        by auto
      ultimately show ?thesis by blast
    qed
  qed
next
  case (3 w p entries ns tasks)
  then show ?case by (auto simp: walked_def)
next
  case (4 w p ns tasks)
  then show ?case by (auto simp: walked_def)
next
  case (5 w p e ns tasks)
  then show ?case by simp
qed


subsection \<open>Evaluation in the example world\<close>

lemmas scan_simps = scan_def scan_filesystem_def scan_webpage_def parse_text_description_def
  analyze_file_def report_def suffix_def path_name_def recognized_def pdf_note_def
  extract_tasks_from_text_def list_of_set_def collect_tasks_def office_def office_paths_def
  walked_def file_tasks_def


lemma extract_file_wins:
  "extract_tasks_from_text length (ustr ''Manual task: file wins'') = [ustr ''file wins'']"
  by (simp add: extract_tasks_from_text_def list_of_set_def collect_tasks_def eval_simps)



lemma extract_router:
  "extract_tasks_from_text length (ustr ''Manual task: reset the router.'') =
     [ustr ''reset the router'']"
  by (simp add: extract_tasks_from_text_def list_of_set_def collect_tasks_def eval_simps)

lemma extract_crop:
  "extract_tasks_from_text length (ustr ''manual step: crop the image'') =
     [ustr ''crop the image'']"
  by (simp add: extract_tasks_from_text_def list_of_set_def collect_tasks_def eval_simps)

lemma office_fields:
  "path_lookup office = office_paths" "netloc_check office = (\<lambda>loc. None)"
  "str_hash office = length" "soup_get_text office = (\<lambda>c. Inr c)"
  by (simp_all add: office_def)

lemma scan_docs:
  "scan office (ustr ''docs'') =
     ([ReadText (ustr ''docs/notes.txt''), ReadText (ustr ''docs/old/plan.md'')],
      Inr [ustr ''Review PDF documentation: manual.pdf'', ustr ''copy rows'',
           ustr ''sign the form''])"
  by (simp add: scan_simps eval_simps)

lemma suffix_examples:
  "suffix (ustr ''scan.pdf'') = ustr ''.pdf''"
  "suffix (ustr ''docs/manual.pdf'') = ustr ''.pdf''"
  "suffix (ustr ''notes.bin'') \<noteq> ustr ''.pdf''"
  "suffix (ustr ''docs/notes.txt'') = ustr ''.txt''"
  by (simp_all add: suffix_def path_name_def ustr_def)

subsection \<open>The claims about \<open>scan\<close>\<close>




text \<open>
  C3, as stated, fails: a response with status 404 is no failure for
  \<open>_scan_webpage\<close>, which never reads the status; the body of the response is
  searched and its tasks are returned.
\<close>

theorem non_2xx_counterexample:
  "path_lookup office (ustr ''https://example.org/missing'') = Inr None \<and>
   is_url (netloc_check office) (ustr ''https://example.org/missing'') \<and>
   requests_get office (ustr ''https://example.org/missing'') =
     Inr \<lparr>status_code = 404, content = ustr ''Manual task: reset the router.''\<rparr> \<and>
   scan office (ustr ''https://example.org/missing'') =
     ([HttpGet (ustr ''https://example.org/missing'')], Inr [ustr ''reset the router''])"
  by (simp add: scan_simps eval_simps url_simps)

text \<open>
  C3, amended. For a URL target whose request raises an \<open>Exception\<close> (a connection
  error), \<open>scan\<close> prints one line, \<open>Error scanning webpage\<close> with the URL and the
  message; when standard output takes that line, \<open>scan\<close> returns the empty list
  and raises nothing. A response that arrives is searched whatever its status code
  is.
\<close>

theorem scan_fetch_exception:
  assumes "path_lookup w target = Inr None" and "is_url (netloc_check w) target"
  shows "(requests_get w target = Inl (Exc e) \<and>
          stdout_write w (ustr ''Error scanning webpage '' @ target @ ustr '': '' @ e) = None \<longrightarrow>
            scan w target =
              ([HttpGet target,
                Printed (ustr ''Error scanning webpage '' @ target @ ustr '': '' @ e)],
               Inr [])) \<and>
         (requests_get w target = Inr r \<and> soup_get_text w (content r) = Inr txt \<longrightarrow>
            scan w target = ([HttpGet target], Inr (extract_tasks_from_text (str_hash w) txt)))"
  using assms by (simp add: scan_def scan_webpage_def report_def)

theorem scan_fetch_exception_witness:
  "scan office (ustr ''http://localhost:3000'') =
     ([HttpGet (ustr ''http://localhost:3000''),
       Printed (ustr ''Error scanning webpage http://localhost:3000: Connection refused'')],
      Inr []) \<and>
   scan office (ustr ''https://example.org/missing'') =
     ([HttpGet (ustr ''https://example.org/missing'')], Inr [ustr ''reset the router''])"
proof -
  have p1: "path_lookup office (ustr ''http://localhost:3000'') = Inr None"
    by (simp add: office_def office_paths_def ustr_def)
  have g1: "requests_get office (ustr ''http://localhost:3000'') =
      Inl (Exc (ustr ''Connection refused'')) \<and>
    stdout_write office (ustr ''Error scanning webpage '' @ ustr ''http://localhost:3000'' @
      ustr '': '' @ ustr ''Connection refused'') = None"
    by (simp add: office_def ustr_def)
  have p2: "path_lookup office (ustr ''https://example.org/missing'') = Inr None"
    by (simp add: office_def office_paths_def ustr_def)
  have g2: "requests_get office (ustr ''https://example.org/missing'') =
      Inr \<lparr>status_code = 404, content = ustr ''Manual task: reset the router.''\<rparr> \<and>
    soup_get_text office
      (content \<lparr>status_code = 404, content = ustr ''Manual task: reset the router.''\<rparr>) =
      Inr (ustr ''Manual task: reset the router.'')"
    by (simp add: office_def ustr_def)
  from g1 scan_fetch_exception [OF p1 is_url_localhost, of "ustr ''Connection refused''"]
  have c1: "scan office (ustr ''http://localhost:3000'') =
     ([HttpGet (ustr ''http://localhost:3000''),
       Printed (ustr ''Error scanning webpage http://localhost:3000: Connection refused'')],
      Inr [])"
    by (simp add: ustr_def)
  from g2 scan_fetch_exception [OF p2 is_url_missing,
      of _ "\<lparr>status_code = 404, content = ustr ''Manual task: reset the router.''\<rparr>"
         "ustr ''Manual task: reset the router.''"]
  have c2: "scan office (ustr ''https://example.org/missing'') =
     ([HttpGet (ustr ''https://example.org/missing'')], Inr [ustr ''reset the router''])"
    by (simp add: office_fields extract_router)
  from c1 c2 show ?thesis by blast
qed

text \<open>
  C4, as stated, fails: below a directory, a \<open>.doc\<close> file that is not valid UTF-8 is
  handed to \<open>read_text\<close> and leaves an error line and no placeholder; a single file
  \<open>notes.bin\<close> is read and searched as text.
\<close>

theorem binary_file_counterexample:
  "scan office (ustr ''inbox'') =
     ([ReadText (ustr ''inbox/ledger.doc''),
       Printed (ustr ''Error analyzing inbox/ledger.doc: invalid start byte'')],
      Inr []) \<and>
   scan office (ustr ''notes.bin'') =
     ([ReadText (ustr ''notes.bin'')], Inr [ustr ''crop the image''])"
  by (simp add: scan_simps eval_simps)

text \<open>
  C4, amended. A file whose suffix is exactly \<open>.pdf\<close> is represented by the
  placeholder \<open>Review PDF documentation:\<close> with its name and is never read, whether
  it is the target itself or lies below a directory target. Every other file that
  the scan analyses is read as text and searched: a single file with any other
  suffix yields the tasks found in its text, and a directory scan that runs to its
  end reads every \<open>.md\<close>, \<open>.txt\<close> and \<open>.doc\<close> file below the directory and returns,
  path by path in the order of the walk, the placeholder of each \<open>.pdf\<close> file and the
  tasks found in the text of each of the other files (none for a file whose read
  raised an \<open>Exception\<close>).
\<close>

theorem pdf_placeholder:
  "(path_lookup w target = Inr (Some (File p r)) \<and> suffix p = ustr ''.pdf'' \<longrightarrow>
      scan w target = ([], Inr [pdf_note p])) \<and>
   (path_lookup w target = Inr (Some (Dir d entries)) \<and>
    File p r \<in> set (rglob (Dir d entries)) \<and> suffix p = ustr ''.pdf'' \<longrightarrow>
      ReadText p \<notin> set (fst (scan w target)) \<and>
      (\<forall>tasks. snd (scan w target) = Inr tasks \<longrightarrow> pdf_note p \<in> set tasks)) \<and>
   (path_lookup w target = Inr (Some (File p r)) \<and> suffix p \<noteq> ustr ''.pdf'' \<longrightarrow>
      ReadText p \<in> set (fst (scan w target))) \<and>
   (path_lookup w target = Inr (Some (File p (Inr txt))) \<and> suffix p \<noteq> ustr ''.pdf'' \<longrightarrow>
      scan w target = ([ReadText p], Inr (extract_tasks_from_text (str_hash w) txt))) \<and>
   (path_lookup w target = Inr (Some (Dir d entries)) \<and> snd (scan w target) = Inr found \<longrightarrow>
      found = concat (map (file_tasks w) (filter walked (rglob (Dir d entries)))) \<and>
      (\<forall>q rq. File q rq \<in> set (rglob (Dir d entries)) \<and> suffix q \<in> set recognized \<and>
         suffix q \<noteq> ustr ''.pdf'' \<longrightarrow> ReadText q \<in> set (fst (scan w target))))"
proof (intro conjI impI allI)
  assume "path_lookup w target = Inr (Some (File p r)) \<and> suffix p = ustr ''.pdf''"
  then show "scan w target = ([], Inr [pdf_note p])"
    by (simp add: scan_def scan_filesystem_def analyze_file_def)
next
  assume a: "path_lookup w target = Inr (Some (Dir d entries)) \<and>
    File p r \<in> set (rglob (Dir d entries)) \<and> suffix p = ustr ''.pdf''"
  then have s: "scan w target = scan_entries w (rglob (Dir d entries)) []"
    by (simp add: scan_def scan_filesystem_def)
  from a scan_entries_events [of "ReadText p" w "rglob (Dir d entries)" "[]"]
  show "ReadText p \<notin> set (fst (scan w target))"
    unfolding s by auto
  fix tasks assume t: "snd (scan w target) = Inr tasks"
  from a have "walked (File p r)" by (simp add: walked_def recognized_def)
  with a have "File p r \<in> set (filter walked (rglob (Dir d entries)))" by simp
  moreover from a have "pdf_note p \<in> set (file_tasks w (File p r))"
    by (simp add: file_tasks_def)
  moreover from t s scan_entries_result [of w "rglob (Dir d entries)" "[]" tasks]
  have "tasks = concat (map (file_tasks w) (filter walked (rglob (Dir d entries))))"
    by simp
  ultimately show "pdf_note p \<in> set tasks" by auto
next
  assume "path_lookup w target = Inr (Some (File p r)) \<and> suffix p \<noteq> ustr ''.pdf''"
  then show "ReadText p \<in> set (fst (scan w target))"
    using analyze_file_reads [of p w r] by (simp add: scan_def scan_filesystem_def)
next
  assume "path_lookup w target = Inr (Some (File p (Inr txt))) \<and> suffix p \<noteq> ustr ''.pdf''"
  then show "scan w target = ([ReadText p], Inr (extract_tasks_from_text (str_hash w) txt))"
    by (simp add: scan_def scan_filesystem_def analyze_file_def)
next
  assume a: "path_lookup w target = Inr (Some (Dir d entries)) \<and>
    snd (scan w target) = Inr found"
  then have s: "scan w target = scan_entries w (rglob (Dir d entries)) []"
    by (simp add: scan_def scan_filesystem_def)
  from a s scan_entries_result [of w "rglob (Dir d entries)" "[]" found]
  show "found = concat (map (file_tasks w) (filter walked (rglob (Dir d entries))))"
    by simp
  fix q rq
  assume "File q rq \<in> set (rglob (Dir d entries)) \<and> suffix q \<in> set recognized \<and>
    suffix q \<noteq> ustr ''.pdf''"
  with a s scan_entries_result [of w "rglob (Dir d entries)" "[]" found]
  show "ReadText q \<in> set (fst (scan w target))" by auto
qed

theorem pdf_placeholder_witness:
  "scan office (ustr ''scan.pdf'') = ([], Inr [ustr ''Review PDF documentation: scan.pdf'']) \<and>
   ReadText (ustr ''docs/manual.pdf'') \<notin> set (fst (scan office (ustr ''docs''))) \<and>
   snd (scan office (ustr ''docs'')) =
     Inr [ustr ''Review PDF documentation: manual.pdf'', ustr ''copy rows'',
          ustr ''sign the form''] \<and>
   pdf_note (ustr ''docs/manual.pdf'') \<in>
     set [ustr ''Review PDF documentation: manual.pdf'', ustr ''copy rows'',
          ustr ''sign the form''] \<and>
   ReadText (ustr ''docs/notes.txt'') \<in> set (fst (scan office (ustr ''docs''))) \<and>
   scan office (ustr ''notes.bin'') =
     ([ReadText (ustr ''notes.bin'')], Inr [ustr ''crop the image''])"
proof -
  have p1: "path_lookup office (ustr ''scan.pdf'') =
      Inr (Some (File (ustr ''scan.pdf'') (Inr (ustr ''Manual task: never read''))))"
    by (simp add: office_def office_paths_def ustr_def)
  from p1 suffix_examples(1)
    pdf_placeholder [of office "ustr ''scan.pdf''" "ustr ''scan.pdf''"
      "Inr (ustr ''Manual task: never read'')"]
  have c1: "scan office (ustr ''scan.pdf'') =
      ([], Inr [ustr ''Review PDF documentation: scan.pdf''])"
    by (simp add: pdf_note_def path_name_def ustr_def)
  obtain entries where p2: "path_lookup office (ustr ''docs'') =
      Inr (Some (Dir (ustr ''docs'') entries))"
    and m: "File (ustr ''docs/manual.pdf'') (Inr (ustr ''Manual process: print it.''))
      \<in> set (rglob (Dir (ustr ''docs'') entries))"
    and n: "File (ustr ''docs/notes.txt'') (Inr (ustr ''Repetitive task: copy rows.''))
      \<in> set (rglob (Dir (ustr ''docs'') entries))"
    by (simp add: office_def office_paths_def ustr_def)
  have d: "snd (scan office (ustr ''docs'')) =
     Inr [ustr ''Review PDF documentation: manual.pdf'', ustr ''copy rows'',
          ustr ''sign the form'']"
    by (simp add: scan_docs)
  from p2 m suffix_examples(2)
    pdf_placeholder [of office "ustr ''docs''" "ustr ''docs/manual.pdf''"
      "Inr (ustr ''Manual process: print it.'')" "ustr ''docs''" entries]
  have c2: "ReadText (ustr ''docs/manual.pdf'') \<notin> set (fst (scan office (ustr ''docs''))) \<and>
      (\<forall>tasks. snd (scan office (ustr ''docs'')) = Inr tasks \<longrightarrow>
         pdf_note (ustr ''docs/manual.pdf'') \<in> set tasks)"
    by blast
  with d have c3: "pdf_note (ustr ''docs/manual.pdf'') \<in>
     set [ustr ''Review PDF documentation: manual.pdf'', ustr ''copy rows'',
          ustr ''sign the form'']"
    by simp
  have sx: "suffix (ustr ''docs/notes.txt'') \<in> set recognized \<and>
      suffix (ustr ''docs/notes.txt'') \<noteq> ustr ''.pdf''"
    by (simp add: suffix_examples(4) recognized_def) (simp add: ustr_def)
  from p2 d n sx
    pdf_placeholder [of office "ustr ''docs''" _ _ "ustr ''docs''" entries _
      "[ustr ''Review PDF documentation: manual.pdf'', ustr ''copy rows'',
        ustr ''sign the form'']"]
  have c4: "ReadText (ustr ''docs/notes.txt'') \<in> set (fst (scan office (ustr ''docs'')))"
    by blast
  have p3: "path_lookup office (ustr ''notes.bin'') =
      Inr (Some (File (ustr ''notes.bin'') (Inr (ustr ''manual step: crop the image''))))"
    by (simp add: office_def office_paths_def ustr_def)
  from p3 suffix_examples(3)
    pdf_placeholder [of office "ustr ''notes.bin''" "ustr ''notes.bin''" _ _ _
      "ustr ''manual step: crop the image''"]
  have c5: "scan office (ustr ''notes.bin'') =
     ([ReadText (ustr ''notes.bin'')], Inr [ustr ''crop the image''])"
    by (simp add: office_fields extract_crop)
  from c1 c2 d c3 c4 c5 show ?thesis by blast
qed




end
